theory Spec2Isabelle
  imports Main "HOL-Library.Word"
begin

unbundle bit_operations_syntax

section \<open>Strings of the runtime\<close>

text \<open>
  A JavaScript string is a sequence of 16-bit code units; \<open>js.length\<close> and
  \<open>js.slice\<close> count code units. Literals of the source are ASCII and are
  written through \<open>ascii\<close>.
\<close>

type_synonym code_unit = "16 word"
type_synonym jsstring = "code_unit list"
type_synonym bytes = "8 word list"

definition ascii :: "string \<Rightarrow> jsstring" where
  "ascii s = map of_char s"

definition newline :: jsstring where
  "newline = [0x0A]"

text \<open>
  \<open>s.slice(a, b)\<close> for \<open>0 \<le> a \<le> b\<close>: the code units from index \<open>a\<close> up to, not
  including, index \<open>b\<close>, clamped to the end of the string.
\<close>

definition slice :: "jsstring \<Rightarrow> nat \<Rightarrow> nat \<Rightarrow> jsstring" where
  "slice s a b = take (b - a) (drop a s)"

text \<open>
  What a stream write of a string puts on the wire: \<open>fs.WriteStream.write(chunk)\<close>
  converts each chunk on its own with the default encoding, UTF-8. A surrogate pair
  becomes one four-byte sequence; a surrogate without its partner inside the same
  string becomes the replacement character U+FFFD (bytes EF BF BD).
\<close>

definition is_high_surrogate :: "code_unit \<Rightarrow> bool" where
  "is_high_surrogate c = (0xD800 \<le> c \<and> c \<le> 0xDBFF)"

definition is_low_surrogate :: "code_unit \<Rightarrow> bool" where
  "is_low_surrogate c = (0xDC00 \<le> c \<and> c \<le> 0xDFFF)"

definition utf8_1 :: "code_unit \<Rightarrow> bytes" where
  "utf8_1 c =
     (if c < 0x80 then [ucast c]
      else if c < 0x800 then [0xC0 OR ucast (drop_bit 6 c), 0x80 OR ucast (c AND 0x3F)]
      else [0xE0 OR ucast (drop_bit 12 c), 0x80 OR ucast (drop_bit 6 c AND 0x3F),
            0x80 OR ucast (c AND 0x3F)])"

definition utf8_pair :: "code_unit \<Rightarrow> code_unit \<Rightarrow> bytes" where
  "utf8_pair hi lo =
     (let cp = (0x10000 :: 32 word) + push_bit 10 (ucast (hi AND 0x3FF)) + ucast (lo AND 0x3FF)
      in [0xF0 OR ucast (drop_bit 18 cp), 0x80 OR ucast (drop_bit 12 cp AND 0x3F),
          0x80 OR ucast (drop_bit 6 cp AND 0x3F), 0x80 OR ucast (cp AND 0x3F)])"

definition replacement :: bytes where
  "replacement = [0xEF, 0xBF, 0xBD]"

fun utf8 :: "jsstring \<Rightarrow> bytes" where
  "utf8 [] = []"
| "utf8 [c] = (if is_high_surrogate c \<or> is_low_surrogate c then replacement else utf8_1 c)"
| "utf8 (c # d # cs) =
     (if is_high_surrogate c then
        (if is_low_surrogate d then utf8_pair c d @ utf8 cs else replacement @ utf8 (d # cs))
      else if is_low_surrogate c then replacement @ utf8 (d # cs)
      else utf8_1 c @ utf8 (d # cs))"

section \<open>Effects\<close>

text \<open>
  The calls the module makes on its collaborators (the native host, the shell, the
  console, the streams, the socket) are recorded in order in a trace. Values of the
  source's type \<open>any\<close> (messages, the rpc object) are the type parameter \<open>'a\<close>.
\<close>

record frame_rect =
  frame_x :: int
  frame_y :: int
  frame_width :: int
  frame_height :: int

record createWebview_params =
  cw_id :: nat
  cw_rpcPort :: nat
  cw_secretKey :: jsstring
  cw_hostWebviewId :: "nat option"
  cw_pipePrefix :: jsstring
  cw_partition :: "jsstring option"
  cw_url :: "jsstring option"
  cw_html :: "jsstring option"
  cw_preload :: "jsstring option"
  cw_frame :: frame_rect
  cw_autoResize :: bool

datatype 'a effect =
    ZigCreateWebview createWebview_params
  | ZigLoadURL nat "jsstring option"
  | ZigLoadHTML nat "jsstring option"
  | ExecSync jsstring
  | ConsoleLog "jsstring list"
  | ConsoleError "jsstring list"
  | CreateWriteStream jsstring
  | InStreamWrite nat jsstring
  | FileStream jsstring
  | SetTransport nat
  | ViaSocket nat 'a

text \<open>The writes made to the inbound pipe of view \<open>i\<close>, in order.\<close>

fun pipe_writes :: "nat \<Rightarrow> 'a effect list \<Rightarrow> jsstring list" where
  "pipe_writes i [] = []"
| "pipe_writes i (InStreamWrite j s # es) =
     (if i = j then s # pipe_writes i es else pipe_writes i es)"
| "pipe_writes i (e # es) = pipe_writes i es"

text \<open>The bytes the reader of the pipe receives: each write encoded on its own.\<close>

definition wire :: "jsstring list \<Rightarrow> bytes" where
  "wire ws = concat (map utf8 ws)"

section \<open>Chunked writes: \<open>executeJavascript\<close>\<close>

definition CHUNK_SIZE :: nat where
  "CHUNK_SIZE = 1024 * 4"

text \<open>
  The \<open>while (offset < js.length)\<close> loop of \<open>executeJavascript\<close>; the trace is the
  state it updates.
\<close>

function executeJavascript_loop ::
  "nat \<Rightarrow> jsstring \<Rightarrow> nat \<Rightarrow> 'a effect list \<Rightarrow> 'a effect list" where
  "executeJavascript_loop i js offset tr =
     (if offset < length js then
        (let chunk = slice js offset (offset + CHUNK_SIZE)
         in executeJavascript_loop i js (offset + CHUNK_SIZE) (tr @ [InStreamWrite i chunk]))
      else tr)"
  by pat_completeness auto
termination
  by (relation "measure (\<lambda>(i, js, offset, tr). length js - offset)")
     (auto simp: CHUNK_SIZE_def)

declare executeJavascript_loop.simps [simp del]

definition executeJavascript :: "nat \<Rightarrow> jsstring \<Rightarrow> 'a effect list \<Rightarrow> 'a effect list" where
  "executeJavascript i js tr = executeJavascript_loop i js 0 tr @ [InStreamWrite i newline]"

text \<open>
  The chunk sequence of a string for a chunk size \<open>n\<close>: successive pieces of \<open>n\<close>
  code units, the last one shorter when the length is not a multiple of \<open>n\<close>. It
  describes what the loop above writes.
\<close>

function chunks_of :: "nat \<Rightarrow> 'b list \<Rightarrow> 'b list list" where
  "chunks_of n s = (if n = 0 \<or> s = [] then [] else take n s # chunks_of n (drop n s))"
  by pat_completeness auto
termination
  by (relation "measure (\<lambda>(n, s). length s)") auto

declare chunks_of.simps [simp del]

section \<open>Completions\<close>

text \<open>
  A call of the source either returns or throws. \<open>Normal r\<close> is a return with result
  \<open>r\<close> (which holds the trace reached); \<open>Throw e tr\<close> is an exception \<open>e\<close> raised
  after the effects \<open>tr\<close>. A \<open>try \<dots> catch\<close> of the source is a case distinction on
  the completion of its body.
\<close>

datatype ('a, 'r) completion = Normal 'r | Throw jsstring "'a effect list"

section \<open>The view\<close>

record 'a BrowserView =
  view_id :: nat
  hostWebviewId :: "nat option"
  url :: "jsstring option"
  html :: "jsstring option"
  preload :: "jsstring option"
  partition_name :: "jsstring option"
  autoResize :: bool
  frame :: frame_rect
  pipePrefix :: jsstring
  secretKey :: bytes
  rpc :: "'a option"

text \<open>
  \<open>Partial<BrowserViewOptions>\<close>: every field may be absent. \<open>None\<close> stands for
  \<open>undefined\<close> and for \<open>null\<close>; a frame given by the caller may itself lack fields.
\<close>

record partial_frame =
  pf_x :: "int option"
  pf_y :: "int option"
  pf_width :: "int option"
  pf_height :: "int option"

record 'a BrowserViewOptions =
  opt_url :: "jsstring option"
  opt_html :: "jsstring option"
  opt_preload :: "jsstring option"
  opt_partition :: "jsstring option"
  opt_frame :: "partial_frame option"
  opt_rpc :: "'a option"
  opt_hostWebviewId :: "nat option"
  opt_autoResize :: "bool option"

definition defaultOptions_frame :: frame_rect where
  "defaultOptions_frame =
     \<lparr> frame_x = 0, frame_y = 0, frame_width = 800, frame_height = 600 \<rparr>"

definition supplied :: "frame_rect \<Rightarrow> partial_frame" where
  "supplied f =
     \<lparr> pf_x = Some (frame_x f), pf_y = Some (frame_y f), pf_width = Some (frame_width f),
       pf_height = Some (frame_height f) \<rparr>"

definition defaultOptions :: "'a BrowserViewOptions" where
  "defaultOptions =
     \<lparr> opt_url = Some (ascii ''https://electrobun.dev''),
       opt_html = None,
       opt_preload = None,
       opt_partition = None,
       opt_frame = Some (supplied defaultOptions_frame),
       opt_rpc = None,
       opt_hostWebviewId = None,
       opt_autoResize = None \<rparr>"

text \<open>Truthiness of a string-or-null value, and the operator \<open>a || b\<close> on such values.\<close>

definition truthy :: "jsstring option \<Rightarrow> bool" where
  "truthy v = (case v of None \<Rightarrow> False | Some s \<Rightarrow> s \<noteq> [])"

definition js_or :: "jsstring option \<Rightarrow> jsstring option \<Rightarrow> jsstring option" where
  "js_or a b = (if truthy a then a else b)"

text \<open>Object spread \<open>{ ...base, ...over }\<close> on frames: a field present in \<open>over\<close> wins.\<close>

definition spread :: "frame_rect \<Rightarrow> partial_frame \<Rightarrow> frame_rect" where
  "spread base over =
     \<lparr> frame_x = (case pf_x over of Some a \<Rightarrow> a | None \<Rightarrow> frame_x base),
       frame_y = (case pf_y over of Some a \<Rightarrow> a | None \<Rightarrow> frame_y base),
       frame_width = (case pf_width over of Some a \<Rightarrow> a | None \<Rightarrow> frame_width base),
       frame_height = (case pf_height over of Some a \<Rightarrow> a | None \<Rightarrow> frame_height base) \<rparr>"

section \<open>Numbers as text\<close>

text \<open>
  A view id in a template literal is rendered in decimal (the numbers concerned are
  non-negative integers below \<open>10\<^sup>2\<^sup>1\<close>, which JavaScript prints digit by digit).
\<close>

function number_toString :: "nat \<Rightarrow> jsstring" where
  "number_toString n =
     (if n < 10 then [of_nat (48 + n)]
      else number_toString (n div 10) @ [of_nat (48 + n mod 10)])"
  by pat_completeness auto
termination
  by (relation "measure (\<lambda>n. n)") auto

declare number_toString.simps [simp del]

text \<open>
  \<open>nextWebviewId++\<close> on a JavaScript number (an IEEE double): the increment is exact
  below \<open>2\<^sup>5\<^sup>3\<close>; at \<open>2\<^sup>5\<^sup>3\<close> the sum rounds back to \<open>2\<^sup>5\<^sup>3\<close>.
\<close>

definition number_increment :: "nat \<Rightarrow> nat" where
  "number_increment n = (if n < 2 ^ 53 then n + 1 else n)"

section \<open>The module and its environment\<close>

text \<open>
  What the module takes from outside: the build hash and the random instance id
  computed when the module is loaded, the socket port, the random bytes drawn for the
  key of each view (by view id), and the failure, if any, of a shell command run
  through \<open>execSync\<close>.
\<close>

datatype exec_failure = FileExists | OtherFailure jsstring

record env =
  hash :: jsstring
  randomId :: jsstring
  rpcPort :: nat
  randomBytes :: "nat \<Rightarrow> bytes"
  exec_failure_of :: "jsstring \<Rightarrow> exec_failure option"

text \<open>
  The state of the module: the id counter, the registry (a view is stored as it is
  when registered), and the trace of effects.
\<close>

record 'a world =
  nextWebviewId :: nat
  BrowserViewMap :: "nat \<rightharpoonup> 'a BrowserView"
  trace :: "'a effect list"

definition initial_world :: "'a world" where
  "initial_world = \<lparr> nextWebviewId = 1, BrowserViewMap = Map.empty, trace = [] \<rparr>"

text \<open>\<open>execSync(cmd)\<close>: runs the command; throws when the command fails.\<close>

definition failure_text :: "exec_failure \<Rightarrow> jsstring" where
  "failure_text f = (case f of FileExists \<Rightarrow> ascii ''File exists'' | OtherFailure t \<Rightarrow> t)"

definition execSync ::
  "env \<Rightarrow> jsstring \<Rightarrow> 'a effect list \<Rightarrow> ('a, 'a effect list) completion" where
  "execSync e cmd tr =
     (case exec_failure_of e cmd of
        None \<Rightarrow> Normal (tr @ [ExecSync cmd])
      | Some f \<Rightarrow> Throw (failure_text f) (tr @ [ExecSync cmd]))"

section \<open>Construction: \<open>constructor\<close>, \<open>init\<close>, \<open>createStreams\<close>\<close>

definition createStreams ::
  "env \<Rightarrow> 'a BrowserView \<Rightarrow> 'a effect list \<Rightarrow> ('a, 'a effect list) completion" where
  "createStreams e this tr =
     (let webviewPipeIn = pipePrefix this @ ascii ''_in'';
          webviewPipeOut = pipePrefix this @ ascii ''_out'';
          tr1 = (case execSync e (ascii ''mkfifo '' @ webviewPipeOut) tr of
                   Normal t \<Rightarrow> t
                 | Throw err t \<Rightarrow> t @ [ConsoleLog [ascii ''pipe out already exists'']]);
          tr2 = (case execSync e (ascii ''mkfifo '' @ webviewPipeIn) tr1 of
                   Normal t \<Rightarrow> t
                 | Throw err t \<Rightarrow> t @ [ConsoleLog [ascii ''pipe in already exists'']]);
          tr3 = tr2 @ [CreateWriteStream webviewPipeIn];
          tr4 = tr3 @ [InStreamWrite (view_id this) newline];
          tr5 = tr4 @ [FileStream webviewPipeOut]
      in Normal (if rpc this \<noteq> None then tr5 @ [SetTransport (view_id this)] else tr5))"

definition uint8array_toString :: "bytes \<Rightarrow> jsstring" where
  "uint8array_toString bs =
     concat (map (\<lambda>(k, b). (if k = 0 then [] else ascii '','') @ number_toString (unat b))
                 (enumerate 0 bs))"

definition init ::
  "env \<Rightarrow> 'a BrowserView \<Rightarrow> 'a world \<Rightarrow> ('a, 'a world) completion" where
  "init e this w =
     (let tr1 = trace w @ [ZigCreateWebview
            \<lparr> cw_id = view_id this,
              cw_rpcPort = rpcPort e,
              cw_secretKey = uint8array_toString (secretKey this),
              cw_hostWebviewId =
                (case hostWebviewId this of None \<Rightarrow> None | Some h \<Rightarrow> if h = 0 then None else Some h),
              cw_pipePrefix = pipePrefix this,
              cw_partition = partition_name this,
              cw_url = url this,
              cw_html = html this,
              cw_preload = preload this,
              cw_frame = \<lparr> frame_x = frame_x (frame this), frame_y = frame_y (frame this),
                          frame_width = frame_width (frame this),
                          frame_height = frame_height (frame this) \<rparr>,
              cw_autoResize = autoResize this \<rparr>]
      in case createStreams e this tr1 of
           Throw err t \<Rightarrow> Throw err t
         | Normal tr2 \<Rightarrow>
             Normal (w\<lparr> BrowserViewMap := (BrowserViewMap w)(view_id this \<mapsto> this),
                        trace := tr2 \<rparr>))"

text \<open>
  \<open>new BrowserView(options)\<close>; a call without argument passes \<open>defaultOptions\<close>. The
  field initialisers run first (\<open>id = nextWebviewId++\<close>), then the assignments of the
  constructor body (\<open>constructor_fields\<close>, for the id \<open>i\<close> just drawn), then
  \<open>this.init()\<close>.
\<close>

definition constructor_fields :: "env \<Rightarrow> 'a BrowserViewOptions \<Rightarrow> nat \<Rightarrow> 'a BrowserView" where
  "constructor_fields e options i =
     \<lparr> view_id = i,
       hostWebviewId = opt_hostWebviewId options,
       url = js_or (js_or (opt_url options) (opt_url (defaultOptions :: 'a BrowserViewOptions))) None,
       html = js_or (js_or (opt_html options) (opt_html (defaultOptions :: 'a BrowserViewOptions))) None,
       preload =
         js_or (js_or (opt_preload options) (opt_preload (defaultOptions :: 'a BrowserViewOptions))) None,
       partition_name = js_or (opt_partition options) None,
       autoResize = (if opt_autoResize options = Some False then False else True),
       frame = (case opt_frame options of
                  Some f \<Rightarrow> spread defaultOptions_frame f
                | None \<Rightarrow> defaultOptions_frame),
       pipePrefix = ascii ''/private/tmp/electrobun_ipc_pipe_'' @ hash e @ ascii ''_''
                    @ randomId e @ ascii ''_'' @ number_toString i,
       secretKey = randomBytes e i,
       rpc = opt_rpc options \<rparr>"

definition BrowserView_new ::
  "env \<Rightarrow> 'a BrowserViewOptions \<Rightarrow> 'a world \<Rightarrow> ('a, 'a BrowserView \<times> 'a world) completion" where
  "BrowserView_new e options w =
     (let i = nextWebviewId w;
          w1 = w\<lparr> nextWebviewId := number_increment (nextWebviewId w) \<rparr>;
          this = constructor_fields e options i
      in case init e this w1 of
           Throw err t \<Rightarrow> Throw err t
         | Normal w2 \<Rightarrow> Normal (this, w2))"

text \<open>Constructing views one after the other, each with its own options.\<close>

fun construct_all ::
  "env \<Rightarrow> 'a BrowserViewOptions list \<Rightarrow> 'a world \<Rightarrow> ('a, 'a BrowserView list \<times> 'a world) completion" where
  "construct_all e [] w = Normal ([], w)"
| "construct_all e (options # rest) w =
     (case BrowserView_new e options w of
        Throw err t \<Rightarrow> Throw err t
      | Normal (v, w1) \<Rightarrow>
          (case construct_all e rest w1 of
             Throw err t \<Rightarrow> Throw err t
           | Normal (vs, w2) \<Rightarrow> Normal (v # vs, w2)))"

section \<open>Loading content: \<open>loadURL\<close>, \<open>loadHTML\<close>\<close>

definition loadURL ::
  "jsstring \<Rightarrow> 'a BrowserView \<Rightarrow> 'a effect list \<Rightarrow> 'a BrowserView \<times> 'a effect list" where
  "loadURL url' this tr =
     (let this1 = this\<lparr> url := Some url' \<rparr>
      in (this1, tr @ [ZigLoadURL (view_id this1) (url this1)]))"

definition loadHTML ::
  "jsstring \<Rightarrow> 'a BrowserView \<Rightarrow> 'a effect list \<Rightarrow> 'a BrowserView \<times> 'a effect list" where
  "loadHTML html' this tr =
     (let this1 = this\<lparr> html := Some html' \<rparr>
      in (this1, tr @ [ZigLoadHTML (view_id this1) (html this1)]))"

section \<open>Sending: \<open>sendMessageToWebviewViaExecute\<close> and the transport's \<open>send\<close>\<close>

text \<open>
  \<open>JSON.stringify\<close> is the platform's: on a value it returns a text, returns
  \<open>undefined\<close> (for \<open>undefined\<close>, a function or a symbol), or throws (a cycle, a
  BigInt). It is a parameter of the functions below.
\<close>

datatype stringified = JsonText jsstring | JsonUndefined | JsonThrows jsstring

text \<open>A value that is a string, is \<open>undefined\<close>, or is anything else.\<close>

datatype 'a jsvalue = JSString jsstring | JSUndefined | JSAny 'a

definition sendMessageToWebviewViaExecute ::
  "('a \<Rightarrow> stringified) \<Rightarrow> 'a BrowserView \<Rightarrow> 'a jsvalue \<Rightarrow> 'a effect list
     \<Rightarrow> ('a, 'a effect list) completion" where
  "sendMessageToWebviewViaExecute stringify this jsonMessage tr =
     (case (case jsonMessage of
              JSString s \<Rightarrow> JsonText s
            | JSUndefined \<Rightarrow> JsonUndefined
            | JSAny m \<Rightarrow> stringify m) of
        JsonThrows err \<Rightarrow> Throw err tr
      | JsonText stringifiedMessage \<Rightarrow>
          Normal (executeJavascript (view_id this)
            (ascii ''window.__electrobun.receiveMessageFromBun('' @ stringifiedMessage @ ascii '')'')
            tr)
      | JsonUndefined \<Rightarrow>
          Normal (executeJavascript (view_id this)
            (ascii ''window.__electrobun.receiveMessageFromBun('' @ ascii ''undefined'' @ ascii '')'')
            tr))"

text \<open>
  \<open>createTransport().send(message)\<close>. \<open>sendMessageToWebviewViaSocket\<close> belongs to the
  socket module; the parameter \<open>socket\<close> tells whether it reports the message as sent.
\<close>

definition send ::
  "(nat \<Rightarrow> 'a \<Rightarrow> bool) \<Rightarrow> ('a \<Rightarrow> stringified) \<Rightarrow> 'a BrowserView \<Rightarrow> 'a \<Rightarrow> 'a effect list
     \<Rightarrow> ('a, 'a effect list) completion" where
  "send socket stringify that message tr =
     (let sentOverSocket = socket (view_id that) message;
          tr1 = tr @ [ViaSocket (view_id that) message]
      in if \<not> sentOverSocket then
           (case (case stringify message of
                    JsonThrows err \<Rightarrow> Throw err tr1
                  | JsonText messageString \<Rightarrow>
                      sendMessageToWebviewViaExecute stringify that (JSString messageString) tr1
                  | JsonUndefined \<Rightarrow>
                      sendMessageToWebviewViaExecute stringify that JSUndefined tr1) of
              Normal t \<Rightarrow> Normal t
            | Throw error t \<Rightarrow>
                Normal (t @ [ConsoleError [ascii ''bun: failed to serialize message to webview'', error]]))
         else Normal tr1)"

text \<open>Several sends in a row on one view; a send that throws ends the sequence.\<close>

fun send_all ::
  "(nat \<Rightarrow> 'a \<Rightarrow> bool) \<Rightarrow> ('a \<Rightarrow> stringified) \<Rightarrow> 'a BrowserView \<Rightarrow> 'a list \<Rightarrow> 'a effect list
     \<Rightarrow> ('a, 'a effect list) completion" where
  "send_all socket stringify that [] tr = Normal tr"
| "send_all socket stringify that (m # ms) tr =
     (case send socket stringify that m tr of
        Throw err t \<Rightarrow> Throw err t
      | Normal t \<Rightarrow> send_all socket stringify that ms t)"

section \<open>Receiving: \<open>readFromPipe\<close>\<close>

text \<open>
  \<open>String.prototype.trim\<close> strips white space and line terminators from both ends.
\<close>

definition is_whitespace :: "code_unit \<Rightarrow> bool" where
  "is_whitespace c =
     (c = 0x09 \<or> c = 0x0A \<or> c = 0x0B \<or> c = 0x0C \<or> c = 0x0D \<or> c = 0x20 \<or> c = 0xA0
      \<or> c = 0x1680 \<or> (0x2000 \<le> c \<and> c \<le> 0x200A) \<or> c = 0x2028 \<or> c = 0x2029
      \<or> c = 0x202F \<or> c = 0x205F \<or> c = 0x3000 \<or> c = 0xFEFF)"

definition trim :: "jsstring \<Rightarrow> jsstring" where
  "trim s = rev (dropWhile is_whitespace (rev (dropWhile is_whitespace s)))"

text \<open>\<open>buffer.indexOf("\n")\<close>: the first index of the code unit, or \<open>-1\<close>.\<close>

fun indexOf :: "jsstring \<Rightarrow> code_unit \<Rightarrow> int" where
  "indexOf [] c = - 1"
| "indexOf (b # bs) c =
     (if b = c then 0 else (let k = indexOf bs c in if k < 0 then - 1 else k + 1))"

text \<open>
  The inner loop \<open>while ((eolIndex = buffer.indexOf("\n")) >= 0)\<close>. \<open>JSON.parse\<close> is
  the parameter \<open>parse\<close> (\<open>None\<close> when it throws); \<open>handler\<close> is the callback registered
  by the rpc layer, which returns or throws and may have effects of its own. The
  \<open>try\<close> block covers the parse and the call of the handler.
\<close>

function drain_lines ::
  "(jsstring \<Rightarrow> 'a option) \<Rightarrow> ('a \<Rightarrow> 'a effect list \<Rightarrow> ('a, 'a effect list) completion)
     \<Rightarrow> jsstring \<Rightarrow> 'a effect list \<Rightarrow> jsstring \<times> 'a effect list" where
  "drain_lines parse handler buffer tr =
     (let eolIndex = indexOf buffer 0x0A
      in if eolIndex \<ge> 0 then
           (let line = trim (slice buffer 0 (nat eolIndex));
                buffer1 = drop (nat eolIndex + 1) buffer
            in if line \<noteq> [] then
                 (case (case parse line of
                          None \<Rightarrow> Throw (ascii ''SyntaxError'') tr
                        | Some event \<Rightarrow> handler event tr) of
                    Normal t \<Rightarrow> drain_lines parse handler buffer1 t
                  | Throw error t \<Rightarrow>
                      drain_lines parse handler buffer1 (t @ [ConsoleError [ascii ''webview: '', line]]))
               else drain_lines parse handler buffer1 tr)
         else (buffer, tr))"
  by pat_completeness auto
termination
proof -
  have found: "0 \<le> indexOf b c \<Longrightarrow> b \<noteq> []" for b :: jsstring and c
    by (cases b) simp_all
  show ?thesis
    by (relation "measure (\<lambda>(parse, handler, buffer, tr). length buffer)")
       (auto dest: found)
qed

declare drain_lines.simps [simp del]

text \<open>
  The outer loop: one \<open>reader.read()\<close> per round until the stream is done. The list
  holds the values read; \<open>decode\<close> is \<open>new TextDecoder().decode\<close>, applied to each value
  on its own.
\<close>

fun readFromPipe_loop ::
  "(bytes \<Rightarrow> jsstring) \<Rightarrow> (jsstring \<Rightarrow> 'a option)
     \<Rightarrow> ('a \<Rightarrow> 'a effect list \<Rightarrow> ('a, 'a effect list) completion)
     \<Rightarrow> bytes list \<Rightarrow> jsstring \<Rightarrow> 'a effect list \<Rightarrow> jsstring \<times> 'a effect list" where
  "readFromPipe_loop decode parse handler [] buffer tr = (buffer, tr)"
| "readFromPipe_loop decode parse handler (v # reads) buffer tr =
     (case drain_lines parse handler (buffer @ decode v) tr of
        (buffer1, tr1) \<Rightarrow> readFromPipe_loop decode parse handler reads buffer1 tr1)"

definition readFromPipe ::
  "(bytes \<Rightarrow> jsstring) \<Rightarrow> (jsstring \<Rightarrow> 'a option)
     \<Rightarrow> ('a \<Rightarrow> 'a effect list \<Rightarrow> ('a, 'a effect list) completion)
     \<Rightarrow> bytes list \<Rightarrow> 'a effect list \<Rightarrow> jsstring \<times> 'a effect list" where
  "readFromPipe decode parse handler reads tr =
     readFromPipe_loop decode parse handler reads [] tr"

text \<open>
  The same in the words of the specification: the decoded text is cut at each newline;
  every complete line is trimmed; an empty one is skipped, one that does not parse is
  reported, any other is handed to the handler. What follows the last newline stays
  in the buffer.
\<close>

fun complete_lines :: "jsstring \<Rightarrow> jsstring list \<times> jsstring" where
  "complete_lines [] = ([], [])"
| "complete_lines (c # cs) =
     (case complete_lines cs of
        (ls, rest) \<Rightarrow>
          if c = 0x0A then ([] # ls, rest)
          else (case ls of [] \<Rightarrow> ([], c # rest) | l # ls' \<Rightarrow> ((c # l) # ls', rest)))"

definition deliver_line ::
  "(jsstring \<Rightarrow> 'a option) \<Rightarrow> ('a \<Rightarrow> 'a effect list \<Rightarrow> ('a, 'a effect list) completion)
     \<Rightarrow> jsstring \<Rightarrow> 'a effect list \<Rightarrow> 'a effect list" where
  "deliver_line parse handler raw tr =
     (let line = trim raw
      in if line = [] then tr
         else (case parse line of
                 None \<Rightarrow> tr @ [ConsoleError [ascii ''webview: '', line]]
               | Some event \<Rightarrow>
                   (case handler event tr of
                      Normal t \<Rightarrow> t
                    | Throw error t \<Rightarrow> t @ [ConsoleError [ascii ''webview: '', line]])))"

section \<open>Dispatch of inbound messages: the listener of \<open>defineRPC\<close>\<close>

text \<open>
  \<open>config.handlers.messages\<close> is a plain object that maps a message name, or \<open>"*"\<close>, to
  a handler. A handler is called with a list of arguments; it returns or throws, and
  may have effects.
\<close>

type_synonym 'a message_handler =
  "'a jsvalue list \<Rightarrow> 'a effect list \<Rightarrow> ('a, 'a effect list) completion"

text \<open>
  \<open>messageHandlers[name]\<close> is a property read: a name that is not registered on the
  object itself is looked up on its prototype, \<open>Object.prototype\<close>, whose members are
  the twelve names below. What is found there is truthy, so the listener calls it with
  the payload, as a plain call (\<open>this\<close> is \<open>undefined\<close>):
  \<^item> \<open>constructor\<close> (the function \<open>Object\<close>) and \<open>toString\<close> return;
  \<^item> \<open>isPrototypeOf\<close> returns for a payload that is not an object and throws a
    TypeError for one that is (\<open>is_object\<close> tells, for a value of type \<open>any\<close>);
  \<^item> \<open>__proto__\<close> is the prototype object itself, not a function: the call throws a
    TypeError;
  \<^item> the other eight convert \<open>this\<close> to an object and throw a TypeError.
\<close>

definition Object_prototype_names :: "jsstring list" where
  "Object_prototype_names =
     [ascii ''constructor'', ascii ''toString'', ascii ''isPrototypeOf'', ascii ''__proto__'',
      ascii ''hasOwnProperty'', ascii ''valueOf'', ascii ''propertyIsEnumerable'',
      ascii ''toLocaleString'', ascii ''__defineGetter__'', ascii ''__defineSetter__'',
      ascii ''__lookupGetter__'', ascii ''__lookupSetter__'']"

definition Object_prototype :: "('a \<Rightarrow> bool) \<Rightarrow> jsstring \<Rightarrow> 'a message_handler option" where
  "Object_prototype is_object name =
     (if name = ascii ''constructor'' \<or> name = ascii ''toString'' then
        Some (\<lambda>args tr. Normal tr)
      else if name = ascii ''isPrototypeOf'' then
        Some (\<lambda>args tr.
          (case args of
             JSAny v # rest \<Rightarrow> if is_object v then Throw (ascii ''TypeError'') tr else Normal tr
           | _ \<Rightarrow> Normal tr))
      else if name \<in> set Object_prototype_names then
        Some (\<lambda>args tr. Throw (ascii ''TypeError'') tr)
      else None)"

definition property_read ::
  "('a \<Rightarrow> bool) \<Rightarrow> (jsstring \<rightharpoonup> 'a message_handler) \<Rightarrow> jsstring \<Rightarrow> 'a message_handler option" where
  "property_read is_object messageHandlers name =
     (case messageHandlers name of
        Some own \<Rightarrow> Some own
      | None \<Rightarrow> Object_prototype is_object name)"

definition messageListener ::
  "('a \<Rightarrow> bool) \<Rightarrow> (jsstring \<rightharpoonup> 'a message_handler) \<Rightarrow> jsstring \<Rightarrow> 'a jsvalue
     \<Rightarrow> 'a effect list \<Rightarrow> ('a, 'a effect list) completion" where
  "messageListener is_object messageHandlers messageName payload tr =
     (case (case property_read is_object messageHandlers (ascii ''*'') of
              Some globalHandler \<Rightarrow> globalHandler [JSString messageName, payload] tr
            | None \<Rightarrow> Normal tr) of
        Throw err t \<Rightarrow> Throw err t
      | Normal tr1 \<Rightarrow>
          (case property_read is_object messageHandlers messageName of
             Some messageHandler \<Rightarrow> messageHandler [payload] tr1
           | None \<Rightarrow> Normal tr1))"

text \<open>
  \<open>defineRPC\<close> adds the listener only when \<open>config.handlers.messages\<close> is given.
\<close>

definition defineRPC_listener ::
  "('a \<Rightarrow> bool) \<Rightarrow> (jsstring \<rightharpoonup> 'a message_handler) option
     \<Rightarrow> (jsstring \<Rightarrow> 'a jsvalue \<Rightarrow> 'a effect list \<Rightarrow> ('a, 'a effect list) completion) option" where
  "defineRPC_listener is_object messages =
     (case messages of
        None \<Rightarrow> None
      | Some messageHandlers \<Rightarrow> Some (messageListener is_object messageHandlers))"

section \<open>Concrete inputs\<close>

text \<open>A view as the constructor leaves it with the default options, for running the definitions.\<close>

definition sample_view :: "'a BrowserView" where
  "sample_view =
     \<lparr> view_id = 1, hostWebviewId = None, url = Some (ascii ''https://electrobun.dev''),
       html = None, preload = None, partition_name = None, autoResize = True,
       frame = defaultOptions_frame,
       pipePrefix = ascii ''/private/tmp/electrobun_ipc_pipe_h_r_1'', secretKey = [],
       rpc = None \<rparr>"

text \<open>The effects that one \<open>send\<close> adds to the trace.\<close>

definition send_effects ::
  "(nat \<Rightarrow> 'a \<Rightarrow> bool) \<Rightarrow> ('a \<Rightarrow> stringified) \<Rightarrow> 'a BrowserView \<Rightarrow> 'a \<Rightarrow> 'a effect list" where
  "send_effects socket stringify that message =
     (case send socket stringify that message [] of Normal t \<Rightarrow> t | Throw err t \<Rightarrow> [])"

section \<open>Properties of the chunked writes\<close>

lemma loop_append:
  "executeJavascript_loop i js offset (tr @ tr') = tr @ executeJavascript_loop i js offset tr'"
proof (induction i js offset tr' arbitrary: tr rule: executeJavascript_loop.induct)
  case (1 i js offset tr')
  show ?case
  proof (cases "offset < length js")
    case True
    then show ?thesis
      using "1.IH"[OF True refl, of tr]
      by (simp add: executeJavascript_loop.simps[of i js offset] Let_def)
  next
    case False
    then show ?thesis by (simp add: executeJavascript_loop.simps[of i js offset])
  qed
qed

lemma chunks_of_Nil [simp]: "chunks_of n [] = []"
  by (simp add: chunks_of.simps[of n "[]"])

lemma loop_chunks:
  "executeJavascript_loop i js offset tr =
     tr @ map (InStreamWrite i) (chunks_of CHUNK_SIZE (drop offset js))"
proof (induction i js offset tr rule: executeJavascript_loop.induct)
  case (1 i js offset tr)
  show ?case
  proof (cases "offset < length js")
    case True
    have C: "CHUNK_SIZE \<noteq> 0" by (simp add: CHUNK_SIZE_def)
    from True have ne: "drop offset js \<noteq> []" by simp
    have "executeJavascript_loop i js offset tr =
        executeJavascript_loop i js (offset + CHUNK_SIZE)
          (tr @ [InStreamWrite i (slice js offset (offset + CHUNK_SIZE))])"
      using True by (simp add: executeJavascript_loop.simps[of i js offset] Let_def)
    also have "\<dots> = (tr @ [InStreamWrite i (slice js offset (offset + CHUNK_SIZE))]) @
        map (InStreamWrite i) (chunks_of CHUNK_SIZE (drop (offset + CHUNK_SIZE) js))"
      using "1.IH"[OF True refl] .
    also have "\<dots> = tr @ map (InStreamWrite i) (chunks_of CHUNK_SIZE (drop offset js))"
      using C ne by (simp add: chunks_of.simps[of CHUNK_SIZE "drop offset js"] slice_def add.commute)
    finally show ?thesis .
  next
    case False
    then show ?thesis
      by (simp add: executeJavascript_loop.simps[of i js offset] chunks_of.simps[of CHUNK_SIZE "[]"])
  qed
qed

lemma concat_chunks_of: "0 < n \<Longrightarrow> concat (chunks_of n s) = s"
proof (induction n s rule: chunks_of.induct)
  case (1 n s)
  then show ?case by (cases "s = []") (simp_all add: chunks_of.simps[of n s])
qed

lemma chunks_of_bounds: "c \<in> set (chunks_of n s) \<Longrightarrow> c \<noteq> [] \<and> length c \<le> n"
proof (induction n s rule: chunks_of.induct)
  case (1 n s)
  then show ?case
    by (cases "n = 0 \<or> s = []") (auto simp add: chunks_of.simps[of n s])
qed

lemma chunks_of_multiple:
  "0 < n \<Longrightarrow> length s = k * n \<Longrightarrow>
     length (chunks_of n s) = k \<and> (\<forall>c \<in> set (chunks_of n s). length c = n)"
proof (induction k arbitrary: s)
  case 0
  then show ?case by simp
next
  case (Suc k)
  then have ne: "s \<noteq> []" by auto
  have len: "length (drop n s) = k * n" using Suc.prems by simp
  from Suc.IH[OF Suc.prems(1) len] Suc.prems ne show ?case
    by (simp add: chunks_of.simps[of n s])
qed

lemma pipe_writes_append: "pipe_writes i (es @ fs) = pipe_writes i es @ pipe_writes i fs"
  by (induction i es rule: pipe_writes.induct) simp_all

lemma pipe_writes_own: "pipe_writes i (map (InStreamWrite i) ws) = ws"
  by (induction ws) simp_all

lemma executeJavascript_chunks:
  "executeJavascript i js tr =
     tr @ map (InStreamWrite i) (chunks_of CHUNK_SIZE js) @ [InStreamWrite i newline]"
  by (simp add: executeJavascript_def loop_chunks)

lemma utf8_Cons_plain:
  "\<not> is_high_surrogate c \<Longrightarrow> \<not> is_low_surrogate c \<Longrightarrow> utf8 (c # cs) = utf8_1 c @ utf8 cs"
  by (cases cs) simp_all

lemma utf8_replicate_plain:
  "\<not> is_high_surrogate c \<Longrightarrow> \<not> is_low_surrogate c \<Longrightarrow>
     utf8 (replicate n c @ cs) = concat (replicate n (utf8_1 c)) @ utf8 cs"
  by (induction n) (simp_all add: utf8_Cons_plain)

text \<open>
  C3. For a string whose length is a positive exact multiple \<open>k\<close> of the chunk size,
  \<open>executeJavascript\<close> writes exactly \<open>k\<close> chunks, each of the full chunk size and
  none of them empty, which put together give the string, and then the newline; no
  empty chunk comes before the newline. Length is \<open>js.length\<close>, the measure the loop uses.
\<close>

theorem executeJavascript_exact_multiple:
  assumes "0 < k" and "length js = k * CHUNK_SIZE"
  shows "\<exists>cs. executeJavascript i js tr = tr @ map (InStreamWrite i) cs @ [InStreamWrite i newline]
           \<and> length cs = k \<and> (\<forall>c \<in> set cs. length c = CHUNK_SIZE) \<and> [] \<notin> set cs
           \<and> concat cs = js"
proof -
  have C: "0 < CHUNK_SIZE" by (simp add: CHUNK_SIZE_def)
  let ?cs = "chunks_of CHUNK_SIZE js"
  have "length ?cs = k \<and> (\<forall>c \<in> set ?cs. length c = CHUNK_SIZE)"
    using chunks_of_multiple[OF C assms(2)] .
  moreover have "[] \<notin> set ?cs" using chunks_of_bounds by blast
  moreover have "concat ?cs = js" using concat_chunks_of[OF C] .
  ultimately show ?thesis using executeJavascript_chunks by blast
qed

theorem executeJavascript_exact_multiple_witness:
  "(0::nat) < 2 \<and> length (replicate 8192 (0x61 :: code_unit)) = 2 * CHUNK_SIZE \<and>
   (\<exists>cs. executeJavascript 1 (replicate 8192 0x61) ([] :: unit effect list) =
          [] @ map (InStreamWrite 1) cs @ [InStreamWrite 1 newline]
        \<and> length cs = 2 \<and> (\<forall>c \<in> set cs. length c = CHUNK_SIZE) \<and> [] \<notin> set cs
        \<and> concat cs = replicate 8192 0x61)"
proof -
  have h1: "(0::nat) < 2" by simp
  have h2: "length (replicate 8192 (0x61 :: code_unit)) = 2 * CHUNK_SIZE"
    by (simp add: CHUNK_SIZE_def)
  show ?thesis
    using h1 h2 executeJavascript_exact_multiple[OF h1 h2, of 1 "[] :: unit effect list"]
    by blast
qed

lemma plain_E9: "\<not> is_high_surrogate 0xE9 \<and> \<not> is_low_surrogate 0xE9"
  by (simp add: is_high_surrogate_def is_low_surrogate_def)

lemma plain_61: "\<not> is_high_surrogate 0x61 \<and> \<not> is_low_surrogate 0x61"
  by (simp add: is_high_surrogate_def is_low_surrogate_def)

lemma chunks_4096_E9:
  "chunks_of CHUNK_SIZE (replicate 4096 (0xE9 :: code_unit)) = [replicate 4096 0xE9]"
  by (simp add: chunks_of.simps[of 4096 "replicate 4096 0xE9"] CHUNK_SIZE_def)

lemma chunks_split_pair:
  "chunks_of CHUNK_SIZE (replicate 4095 (0x61 :: code_unit) @ [0xD83D, 0xDE00]) =
     [replicate 4095 0x61 @ [0xD83D], [0xDE00]]"
  by (simp add: chunks_of.simps[of 4096 "replicate 4095 0x61 @ [0xD83D, 0xDE00]"]
      chunks_of.simps[of 4096 "[0xDE00]"] CHUNK_SIZE_def)

text \<open>
  C1. The loop measures chunks in code units, not in bytes. A string of 4096 letters
  e-acute (U+00E9) is written as one chunk, which is 8192 bytes on the wire. A string
  of 4095 letters \<open>a\<close> followed by one character outside the basic plane (the pair
  D83D DE00) is cut between the two halves of the pair: each half is encoded on its
  own as U+FFFD, so the reader receives six replacement bytes where the four bytes
  F0 9F 98 80 of the character should be.
\<close>

theorem executeJavascript_counts_code_units:
  "pipe_writes 1 (executeJavascript 1 (replicate 4096 0xE9) ([] :: unit effect list)) =
     [replicate 4096 0xE9, newline]
   \<and> length (utf8 (replicate 4096 0xE9)) = 8192
   \<and> pipe_writes 1 (executeJavascript 1 (replicate 4095 0x61 @ [0xD83D, 0xDE00])
        ([] :: unit effect list)) = [replicate 4095 0x61 @ [0xD83D], [0xDE00], newline]
   \<and> wire [replicate 4095 0x61 @ [0xD83D], [0xDE00], newline] =
        replicate 4095 0x61 @ [0xEF, 0xBF, 0xBD, 0xEF, 0xBF, 0xBD, 0x0A]
   \<and> utf8 (replicate 4095 0x61 @ [0xD83D, 0xDE00]) =
        replicate 4095 0x61 @ [0xF0, 0x9F, 0x98, 0x80]"
proof -
  have a: "pipe_writes 1 (executeJavascript 1 (replicate 4096 0xE9) ([] :: unit effect list)) =
     [replicate 4096 0xE9, newline]"
    by (simp add: executeJavascript_chunks chunks_4096_E9)
  have b: "length (utf8 (replicate 4096 0xE9)) = 8192"
    using utf8_replicate_plain[of "0xE9" 4096 "[]"] plain_E9
    by (simp add: utf8_1_def length_concat sum_list_replicate)
  have c: "pipe_writes 1 (executeJavascript 1 (replicate 4095 0x61 @ [0xD83D, 0xDE00])
        ([] :: unit effect list)) = [replicate 4095 0x61 @ [0xD83D], [0xDE00], newline]"
    by (simp add: executeJavascript_chunks chunks_split_pair)
  have r: "concat (replicate n (utf8_1 0x61)) = replicate n 0x61" for n
    by (induction n) (simp_all add: utf8_1_def)
  have d: "wire [replicate 4095 0x61 @ [0xD83D], [0xDE00], newline] =
        replicate 4095 0x61 @ [0xEF, 0xBF, 0xBD, 0xEF, 0xBF, 0xBD, 0x0A]"
    using utf8_replicate_plain[of "0x61" 4095 "[0xD83D]"] plain_61
    by (simp add: wire_def r newline_def replacement_def is_high_surrogate_def
        is_low_surrogate_def utf8_1_def)
  have e: "utf8 (replicate 4095 0x61 @ [0xD83D, 0xDE00]) =
        replicate 4095 0x61 @ [0xF0, 0x9F, 0x98, 0x80]"
    using utf8_replicate_plain[of "0x61" 4095 "[0xD83D, 0xDE00]"] plain_61
    by (simp add: r is_high_surrogate_def is_low_surrogate_def utf8_pair_def)
  from a b c d e show ?thesis by blast
qed


section \<open>Properties of loading content\<close>

text \<open>
  C7, as the code has it. \<open>loadURL(url)\<close> sets the \<open>url\<close> field to \<open>url\<close>, leaves the
  \<open>html\<close> field as it was, and sends the load-url directive with that url;
  \<open>loadHTML(html)\<close> sets the \<open>html\<close> field to \<open>html\<close>, leaves the \<open>url\<close> field as it
  was, and sends the load-html directive with that html. Neither clears the other
  field.
\<close>

theorem load_sets_one_field:
  "url (fst (loadURL u this tr)) = Some u
   \<and> html (fst (loadURL u this tr)) = html this
   \<and> snd (loadURL u this tr) = tr @ [ZigLoadURL (view_id this) (Some u)]
   \<and> html (fst (loadHTML h this tr)) = Some h
   \<and> url (fst (loadHTML h this tr)) = url this
   \<and> snd (loadHTML h this tr) = tr @ [ZigLoadHTML (view_id this) (Some h)]"
  by (simp add: loadURL_def loadHTML_def)

text \<open>
  C7 as stated fails: on a view that holds inline content, \<open>loadURL\<close> leaves the
  \<open>html\<close> field set; on a view that holds a url, \<open>loadHTML\<close> leaves the \<open>url\<close> field set.
\<close>

theorem load_does_not_clear_counterexample:
  "html (fst (loadURL (ascii ''https://example.com'')
      \<lparr> view_id = 1, hostWebviewId = None, url = Some (ascii ''https://electrobun.dev''),
        html = Some (ascii ''<h1>hi</h1>''), preload = None, partition_name = None,
        autoResize = True, frame = defaultOptions_frame,
        pipePrefix = ascii ''/private/tmp/electrobun_ipc_pipe_h_r_1'', secretKey = [],
        rpc = (None :: unit option) \<rparr> [])) = Some (ascii ''<h1>hi</h1>'')
   \<and> url (fst (loadHTML (ascii ''<p>x</p>'')
      \<lparr> view_id = 1, hostWebviewId = None, url = Some (ascii ''https://electrobun.dev''),
        html = None, preload = None, partition_name = None,
        autoResize = True, frame = defaultOptions_frame,
        pipePrefix = ascii ''/private/tmp/electrobun_ipc_pipe_h_r_1'', secretKey = [],
        rpc = (None :: unit option) \<rparr> [])) = Some (ascii ''https://electrobun.dev'')"
  by (simp add: loadURL_def loadHTML_def)


section \<open>Properties of construction\<close>

lemma createStreams_Normal:
  "createStreams e this tr =
     Normal (tr @ [ExecSync (ascii ''mkfifo '' @ pipePrefix this @ ascii ''_out'')]
       @ (if exec_failure_of e (ascii ''mkfifo '' @ pipePrefix this @ ascii ''_out'') = None then []
          else [ConsoleLog [ascii ''pipe out already exists'']])
       @ [ExecSync (ascii ''mkfifo '' @ pipePrefix this @ ascii ''_in'')]
       @ (if exec_failure_of e (ascii ''mkfifo '' @ pipePrefix this @ ascii ''_in'') = None then []
          else [ConsoleLog [ascii ''pipe in already exists'']])
       @ [CreateWriteStream (pipePrefix this @ ascii ''_in''),
          InStreamWrite (view_id this) newline,
          FileStream (pipePrefix this @ ascii ''_out'')]
       @ (if rpc this \<noteq> None then [SetTransport (view_id this)] else []))"
  by (simp add: createStreams_def execSync_def Let_def split: option.splits)

lemma createStreams_not_Throw: "createStreams e this tr \<noteq> Throw err t"
  by (simp add: createStreams_def Let_def)

lemma init_Normal:
  "\<exists>t. init e this w =
     Normal (w\<lparr> BrowserViewMap := (BrowserViewMap w)(view_id this \<mapsto> this), trace := t \<rparr>)"
  by (auto simp: init_def Let_def createStreams_not_Throw split: completion.splits)

lemma init_not_Throw: "init e this w \<noteq> Throw err t"
  using init_Normal[of e this w] by auto

text \<open>
  C6. The code at the failing input: both \<open>mkfifo\<close> commands fail with ``Permission
  denied'', a failure other than ``already exists''. The construction of the view is
  not aborted: the constructor returns, each failure is logged as ``already exists'',
  the calls that open the write stream, write the newline and open the read stream
  are made all the same, and the view is registered. (Whether the streams can then be
  opened is decided later by the platform, after the constructor has returned.)
\<close>

theorem other_failure_not_fatal:
  "(case BrowserView_new
      \<lparr> hash = ascii ''h'', randomId = ascii ''r'', rpcPort = 50000, randomBytes = (\<lambda>i. []),
        exec_failure_of = (\<lambda>cmd. Some (OtherFailure (ascii ''mkfifo: Permission denied''))) \<rparr>
      (defaultOptions :: unit BrowserViewOptions) initial_world of
      Throw err t \<Rightarrow> False
    | Normal (this, w) \<Rightarrow>
        BrowserViewMap w 1 = Some this
        \<and> drop 1 (trace w) =
            [ExecSync (ascii ''mkfifo /private/tmp/electrobun_ipc_pipe_h_r_1_out''),
             ConsoleLog [ascii ''pipe out already exists''],
             ExecSync (ascii ''mkfifo /private/tmp/electrobun_ipc_pipe_h_r_1_in''),
             ConsoleLog [ascii ''pipe in already exists''],
             CreateWriteStream (ascii ''/private/tmp/electrobun_ipc_pipe_h_r_1_in''),
             InStreamWrite 1 newline,
             FileStream (ascii ''/private/tmp/electrobun_ipc_pipe_h_r_1_out'')])"
  by (simp add: BrowserView_new_def constructor_fields_def js_or_def truthy_def init_def
      createStreams_def execSync_def Let_def initial_world_def
      number_toString.simps[of "Suc 0"] ascii_def failure_text_def
      defaultOptions_def number_increment_def newline_def)

lemma init_NormalD:
  "init e this w = Normal w' \<Longrightarrow>
     BrowserViewMap w' = (BrowserViewMap w)(view_id this \<mapsto> this)
     \<and> nextWebviewId w' = nextWebviewId w"
  using init_Normal[of e this w] by auto

lemma BrowserView_new_Normal:
  "\<exists>w'. BrowserView_new e options w = Normal (constructor_fields e options (nextWebviewId w), w')
     \<and> nextWebviewId w' = number_increment (nextWebviewId w)
     \<and> BrowserViewMap w' =
         (BrowserViewMap w)(nextWebviewId w \<mapsto> constructor_fields e options (nextWebviewId w))"
proof -
  let ?v = "constructor_fields e options (nextWebviewId w)"
  let ?w1 = "w\<lparr> nextWebviewId := number_increment (nextWebviewId w) \<rparr>"
  obtain t where i: "init e ?v ?w1 =
      Normal (?w1\<lparr> BrowserViewMap := (BrowserViewMap ?w1)(view_id ?v \<mapsto> ?v), trace := t \<rparr>)"
    using init_Normal[of e ?v ?w1] by blast
  have "BrowserView_new e options w = (case init e ?v ?w1 of
           Throw err t \<Rightarrow> Throw err t | Normal w2 \<Rightarrow> Normal (?v, w2))"
    by (simp add: BrowserView_new_def Let_def)
  with i show ?thesis by (simp add: constructor_fields_def)
qed

text \<open>
  C10. The constructor returns a view whose \<open>url\<close> is the option when truthy and
  \<open>"https://electrobun.dev"\<close> otherwise, whose \<open>html\<close> and \<open>preload\<close> are the options when
  truthy and \<open>null\<close> otherwise, whose frame is the supplied frame merged field by field
  over \<open>{x: 0, y: 0, width: 800, height: 600}\<close> (that frame itself when none is
  supplied), and whose \<open>autoResize\<close> is true unless the option is \<open>false\<close>. Constructed
  without options, the view has exactly the defaults.
\<close>

theorem BrowserView_new_defaults:
  "(\<exists>this w'. BrowserView_new e options w = Normal (this, w')
      \<and> url this = (if truthy (opt_url options) then opt_url options
                     else Some (ascii ''https://electrobun.dev''))
      \<and> html this = (if truthy (opt_html options) then opt_html options else None)
      \<and> preload this = (if truthy (opt_preload options) then opt_preload options else None)
      \<and> frame this =
          (case opt_frame options of
             None \<Rightarrow> \<lparr> frame_x = 0, frame_y = 0, frame_width = 800, frame_height = 600 \<rparr>
           | Some f \<Rightarrow>
               \<lparr> frame_x = (case pf_x f of None \<Rightarrow> 0 | Some a \<Rightarrow> a),
                 frame_y = (case pf_y f of None \<Rightarrow> 0 | Some a \<Rightarrow> a),
                 frame_width = (case pf_width f of None \<Rightarrow> 800 | Some a \<Rightarrow> a),
                 frame_height = (case pf_height f of None \<Rightarrow> 600 | Some a \<Rightarrow> a) \<rparr>)
      \<and> autoResize this = (opt_autoResize options \<noteq> Some False))
   \<and> (\<exists>this w'. BrowserView_new e defaultOptions w = Normal (this, w')
      \<and> url this = Some (ascii ''https://electrobun.dev'')
      \<and> html this = None
      \<and> preload this = None
      \<and> frame this = \<lparr> frame_x = 0, frame_y = 0, frame_width = 800, frame_height = 600 \<rparr>
      \<and> autoResize this = True)"
proof
  obtain w' where n: "BrowserView_new e options w =
      Normal (constructor_fields e options (nextWebviewId w), w')"
    using BrowserView_new_Normal[of e options w] by blast
  have "url (constructor_fields e options (nextWebviewId w)) =
      (if truthy (opt_url options) then opt_url options else Some (ascii ''https://electrobun.dev''))"
    by (simp add: constructor_fields_def js_or_def truthy_def ascii_def defaultOptions_def)
  moreover have "html (constructor_fields e options (nextWebviewId w)) =
      (if truthy (opt_html options) then opt_html options else None)"
    by (simp add: constructor_fields_def js_or_def truthy_def defaultOptions_def)
  moreover have "preload (constructor_fields e options (nextWebviewId w)) =
      (if truthy (opt_preload options) then opt_preload options else None)"
    by (simp add: constructor_fields_def js_or_def truthy_def defaultOptions_def)
  moreover have "frame (constructor_fields e options (nextWebviewId w)) =
          (case opt_frame options of
             None \<Rightarrow> \<lparr> frame_x = 0, frame_y = 0, frame_width = 800, frame_height = 600 \<rparr>
           | Some f \<Rightarrow>
               \<lparr> frame_x = (case pf_x f of None \<Rightarrow> 0 | Some a \<Rightarrow> a),
                 frame_y = (case pf_y f of None \<Rightarrow> 0 | Some a \<Rightarrow> a),
                 frame_width = (case pf_width f of None \<Rightarrow> 800 | Some a \<Rightarrow> a),
                 frame_height = (case pf_height f of None \<Rightarrow> 600 | Some a \<Rightarrow> a) \<rparr>)"
    by (simp add: constructor_fields_def spread_def defaultOptions_frame_def split: option.splits)
  moreover have "autoResize (constructor_fields e options (nextWebviewId w)) =
      (opt_autoResize options \<noteq> Some False)"
    by (simp add: constructor_fields_def)
  ultimately show "\<exists>this w'. BrowserView_new e options w = Normal (this, w')
      \<and> url this = (if truthy (opt_url options) then opt_url options
                     else Some (ascii ''https://electrobun.dev''))
      \<and> html this = (if truthy (opt_html options) then opt_html options else None)
      \<and> preload this = (if truthy (opt_preload options) then opt_preload options else None)
      \<and> frame this =
          (case opt_frame options of
             None \<Rightarrow> \<lparr> frame_x = 0, frame_y = 0, frame_width = 800, frame_height = 600 \<rparr>
           | Some f \<Rightarrow>
               \<lparr> frame_x = (case pf_x f of None \<Rightarrow> 0 | Some a \<Rightarrow> a),
                 frame_y = (case pf_y f of None \<Rightarrow> 0 | Some a \<Rightarrow> a),
                 frame_width = (case pf_width f of None \<Rightarrow> 800 | Some a \<Rightarrow> a),
                 frame_height = (case pf_height f of None \<Rightarrow> 600 | Some a \<Rightarrow> a) \<rparr>)
      \<and> autoResize this = (opt_autoResize options \<noteq> Some False)"
    using n by blast
next
  let ?d = "defaultOptions :: 'a BrowserViewOptions"
  obtain w' where n: "BrowserView_new e ?d w = Normal (constructor_fields e ?d (nextWebviewId w), w')"
    using BrowserView_new_Normal[of e ?d w] by blast
  have "url (constructor_fields e ?d (nextWebviewId w)) = Some (ascii ''https://electrobun.dev'')"
    by (simp add: constructor_fields_def js_or_def truthy_def ascii_def defaultOptions_def)
  moreover have "html (constructor_fields e ?d (nextWebviewId w)) = None"
    by (simp add: constructor_fields_def js_or_def truthy_def defaultOptions_def)
  moreover have "preload (constructor_fields e ?d (nextWebviewId w)) = None"
    by (simp add: constructor_fields_def js_or_def truthy_def defaultOptions_def)
  moreover have "frame (constructor_fields e ?d (nextWebviewId w)) =
      \<lparr> frame_x = 0, frame_y = 0, frame_width = 800, frame_height = 600 \<rparr>"
    by (simp add: constructor_fields_def spread_def supplied_def defaultOptions_frame_def defaultOptions_def)
  moreover have "autoResize (constructor_fields e ?d (nextWebviewId w)) = True"
    by (simp add: constructor_fields_def defaultOptions_def)
  ultimately show "\<exists>this w'. BrowserView_new e ?d w = Normal (this, w')
      \<and> url this = Some (ascii ''https://electrobun.dev'')
      \<and> html this = None
      \<and> preload this = None
      \<and> frame this = \<lparr> frame_x = 0, frame_y = 0, frame_width = 800, frame_height = 600 \<rparr>
      \<and> autoResize this = True"
    using n by blast
qed


section \<open>Properties of view ids and channel prefixes\<close>

lemma digit_unat: "a < 10 \<Longrightarrow> unat (of_nat (48 + a) :: code_unit) = 48 + a"
proof -
  assume a: "a < 10"
  have "unat (of_nat (48 + a) :: code_unit) = (48 + a) mod 2 ^ LENGTH(16)"
    by (rule unat_of_nat)
  also have "\<dots> = 48 + a" using a by simp
  finally show ?thesis .
qed

lemma digit_inj:
  assumes "a < 10" and "b < 10" and "(of_nat (48 + a) :: code_unit) = of_nat (48 + b)"
  shows "a = b"
proof -
  have "48 + a = unat (of_nat (48 + a) :: code_unit)" using digit_unat[OF assms(1)] by (rule sym)
  also have "\<dots> = unat (of_nat (48 + b) :: code_unit)" by (simp only: assms(3))
  also have "\<dots> = 48 + b" by (rule digit_unat[OF assms(2)])
  finally show ?thesis by simp
qed

lemma number_toString_nonempty: "number_toString n \<noteq> []"
  by (subst number_toString.simps) simp

lemma number_toString_last: "last (number_toString n) = of_nat (48 + n mod 10)"
  by (subst number_toString.simps) (simp del: of_nat_add)

lemma number_toString_butlast:
  "butlast (number_toString n) = (if n < 10 then [] else number_toString (n div 10))"
  by (subst number_toString.simps) (simp del: of_nat_add)

lemma number_toString_inj: "number_toString n = number_toString m \<Longrightarrow> n = m"
proof (induction n arbitrary: m rule: number_toString.induct)
  case (1 n)
  have "last (number_toString n) = last (number_toString m)" using "1.prems" by simp
  then have l: "(of_nat (48 + n mod 10) :: code_unit) = of_nat (48 + m mod 10)"
    by (simp only: number_toString_last)
  have d: "n mod 10 = m mod 10"
    by (rule digit_inj[OF _ _ l]) simp_all
  have "butlast (number_toString n) = butlast (number_toString m)" using "1.prems" by simp
  then have bl: "(if n < 10 then [] else number_toString (n div 10)) =
      (if m < 10 then [] else number_toString (m div 10))"
    by (simp only: number_toString_butlast)
  show ?case
  proof (cases "n < 10")
    case True
    have "m < 10"
    proof (rule ccontr)
      assume "\<not> m < 10"
      with True bl have "[] = number_toString (m div 10)" by simp
      then show False using number_toString_nonempty[of "m div 10"] by simp
    qed
    with True d show ?thesis by simp
  next
    case False
    have m: "\<not> m < 10"
    proof
      assume "m < 10"
      with False bl have "number_toString (n div 10) = []" by simp
      then show False using number_toString_nonempty[of "n div 10"] by simp
    qed
    from False m bl have "number_toString (n div 10) = number_toString (m div 10)" by simp
    then have q: "n div 10 = m div 10" by (rule "1.IH"[OF False])
    have "n = 10 * (n div 10) + n mod 10" by simp
    also have "\<dots> = 10 * (m div 10) + m mod 10" by (simp only: q d)
    also have "\<dots> = m" by simp
    finally show ?thesis .
  qed
qed

lemma pipePrefix_inj:
  "pipePrefix (constructor_fields e options i) = pipePrefix (constructor_fields e options' j)
     \<Longrightarrow> i = j"
  by (simp add: constructor_fields_def number_toString_inj)

lemma construct_all_ids:
  "nextWebviewId w + length optionss \<le> 2 ^ 53 \<Longrightarrow>
     \<exists>w'. construct_all e optionss w =
       Normal (map2 (constructor_fields e) optionss
                 [nextWebviewId w ..< nextWebviewId w + length optionss], w')"
proof (induction optionss arbitrary: w)
  case Nil
  then show ?case by simp
next
  case (Cons options rest)
  let ?n = "nextWebviewId w"
  from Cons.prems have small: "?n < 2 ^ 53" by simp
  obtain w1 where n: "BrowserView_new e options w = Normal (constructor_fields e options ?n, w1)"
    and c: "nextWebviewId w1 = number_increment ?n"
    using BrowserView_new_Normal[of e options w] by blast
  from c small have c': "nextWebviewId w1 = Suc ?n" by (simp add: number_increment_def)
  with Cons.prems have "nextWebviewId w1 + length rest \<le> 2 ^ 53" by simp
  from Cons.IH[OF this] obtain w2 where r: "construct_all e rest w1 =
       Normal (map2 (constructor_fields e) rest [Suc ?n ..< Suc ?n + length rest], w2)"
    using c' by auto
  have u: "[?n ..< ?n + length (options # rest)] = ?n # [Suc ?n ..< Suc ?n + length rest]"
    by (subst upt_rec) (simp del: upt_Suc)
  show ?case unfolding u using n r by simp
qed

lemma map2_view_id:
  "length optionss = length ids \<Longrightarrow>
     map view_id (map2 (constructor_fields e) optionss ids) = ids"
  by (induction optionss ids rule: list_induct2) (simp_all add: constructor_fields_def)

lemma map2_pipePrefix:
  "length optionss = length ids \<Longrightarrow>
     map pipePrefix (map2 (constructor_fields e) optionss ids) =
       map (\<lambda>i. ascii ''/private/tmp/electrobun_ipc_pipe_'' @ hash e @ ascii ''_''
                    @ randomId e @ ascii ''_'' @ number_toString i) ids"
  by (induction optionss ids rule: list_induct2) (simp_all add: constructor_fields_def)

text \<open>
  C9. Views constructed one after the other from the initial state of the module
  (fewer than \<open>2\<^sup>5\<^sup>3\<close> of them, the range in which the counter is exact) get the ids
  1, 2, 3, \<dots> in order; the ids are pairwise distinct, and so are the channel
  prefixes, which end in the id.
\<close>

theorem view_ids_and_prefixes_distinct:
  assumes "length optionss < 2 ^ 53"
  shows "\<exists>vs w. construct_all e optionss initial_world = Normal (vs, w)
           \<and> map view_id vs = [1 ..< Suc (length optionss)]
           \<and> distinct (map view_id vs)
           \<and> distinct (map pipePrefix vs)"
proof -
  let ?ids = "[1 ..< Suc (length optionss)]"
  let ?vs = "map2 (constructor_fields e) optionss ?ids"
  have start: "nextWebviewId (initial_world :: 'a world) = 1" by (simp add: initial_world_def)
  have "nextWebviewId (initial_world :: 'a world) + length optionss \<le> 2 ^ 53"
    using assms start by simp
  from construct_all_ids[OF this, of e] obtain w
    where r: "construct_all e optionss (initial_world :: 'a world) = Normal (?vs, w)"
    using start by (auto simp del: upt_Suc)
  have len: "length optionss = length ?ids" by (simp del: upt_Suc)
  have ids: "map view_id ?vs = ?ids" by (rule map2_view_id[OF len])
  have "inj_on (\<lambda>i. ascii ''/private/tmp/electrobun_ipc_pipe_'' @ hash e @ ascii ''_''
                    @ randomId e @ ascii ''_'' @ number_toString i) (set ?ids)"
    by (rule inj_onI) (simp add: number_toString_inj)
  then have "distinct (map pipePrefix ?vs)"
    unfolding map2_pipePrefix[OF len] by (simp add: distinct_map del: upt_Suc)
  with r ids show ?thesis by (metis distinct_upt)
qed

theorem view_ids_and_prefixes_distinct_witness:
  "length [defaultOptions, defaultOptions, defaultOptions :: unit BrowserViewOptions] < 2 ^ 53
   \<and> (\<exists>vs w. construct_all
          \<lparr> hash = ascii ''h'', randomId = ascii ''r'', rpcPort = 50000, randomBytes = (\<lambda>i. []),
            exec_failure_of = (\<lambda>cmd. None) \<rparr>
          [defaultOptions, defaultOptions, defaultOptions :: unit BrowserViewOptions]
          initial_world = Normal (vs, w)
        \<and> map view_id vs = [1, 2, 3]
        \<and> distinct (map view_id vs)
        \<and> distinct (map pipePrefix vs))"
proof -
  have h: "length [defaultOptions, defaultOptions, defaultOptions :: unit BrowserViewOptions] < 2 ^ 53"
    by simp
  have u: "[1 ..< Suc (length [defaultOptions, defaultOptions, defaultOptions :: unit BrowserViewOptions])]
      = [1, 2, 3]"
    by (simp add: upt_rec)
  show ?thesis
    using h view_ids_and_prefixes_distinct[OF h,
        of "\<lparr> hash = ascii ''h'', randomId = ascii ''r'', rpcPort = 50000, randomBytes = (\<lambda>i. []),
            exec_failure_of = (\<lambda>cmd. None) \<rparr>"]
    unfolding u by blast
qed


section \<open>Properties of sending\<close>

lemma executeJavascript_appends:
  "executeJavascript i js tr = tr @ executeJavascript i js []"
  by (simp add: executeJavascript_chunks)

lemma send_accepted:
  "socket (view_id that) message \<Longrightarrow>
     send socket stringify that message tr = Normal (tr @ [ViaSocket (view_id that) message])"
  by (simp add: send_def)

lemma send_text:
  "\<not> socket (view_id that) message \<Longrightarrow> stringify message = JsonText s \<Longrightarrow>
     send socket stringify that message tr =
       Normal (tr @ ViaSocket (view_id that) message #
         executeJavascript (view_id that)
           (ascii ''window.__electrobun.receiveMessageFromBun('' @ s @ ascii '')'') [])"
  by (simp add: send_def sendMessageToWebviewViaExecute_def
      executeJavascript_appends[of _ _ "tr @ [ViaSocket (view_id that) message]"])

lemma send_undefined:
  "\<not> socket (view_id that) message \<Longrightarrow> stringify message = JsonUndefined \<Longrightarrow>
     send socket stringify that message tr =
       Normal (tr @ ViaSocket (view_id that) message #
         executeJavascript (view_id that)
           (ascii ''window.__electrobun.receiveMessageFromBun('' @ ascii ''undefined'' @ ascii '')'') [])"
  by (simp add: send_def sendMessageToWebviewViaExecute_def
      executeJavascript_appends[of _ _ "tr @ [ViaSocket (view_id that) message]"])

lemma send_throws:
  "\<not> socket (view_id that) message \<Longrightarrow> stringify message = JsonThrows err \<Longrightarrow>
     send socket stringify that message tr =
       Normal (tr @ [ViaSocket (view_id that) message,
         ConsoleError [ascii ''bun: failed to serialize message to webview'', err]])"
  by (simp add: send_def)

lemma send_appends:
  "send socket stringify that message tr =
     Normal (tr @ send_effects socket stringify that message)"
proof (cases "socket (view_id that) message")
  case True
  then show ?thesis by (simp add: send_effects_def send_accepted)
next
  case False
  then show ?thesis
    by (cases "stringify message")
       (simp_all add: send_effects_def send_text send_undefined send_throws)
qed

lemma send_all_appends:
  "send_all socket stringify that ms tr =
     Normal (tr @ concat (map (send_effects socket stringify that) ms))"
  by (induction ms arbitrary: tr) (simp_all add: send_appends)

lemma executeJavascript_nonempty: "executeJavascript i js tr \<noteq> []"
  by (simp add: executeJavascript_def)

lemma executeJavascript_shape:
  "\<exists>cs. executeJavascript i js [] = map (InStreamWrite i) cs @ [InStreamWrite i newline]
     \<and> concat cs = js \<and> (\<forall>c \<in> set cs. c \<noteq> [] \<and> length c \<le> CHUNK_SIZE)"
proof -
  have "0 < CHUNK_SIZE" by (simp add: CHUNK_SIZE_def)
  then have "concat (chunks_of CHUNK_SIZE js) = js" by (rule concat_chunks_of)
  moreover have "\<forall>c \<in> set (chunks_of CHUNK_SIZE js). c \<noteq> [] \<and> length c \<le> CHUNK_SIZE"
    using chunks_of_bounds by blast
  ultimately show ?thesis using executeJavascript_chunks[of i js "[]"] by auto
qed

text \<open>
  C4. Every \<open>send\<close> first attempts the socket. What follows the attempt in the trace is
  empty exactly when the socket reported the message as sent, so then nothing is
  written to the pipe; when it did not, the pipe path runs, and for a message that
  serializes to a text the path writes the chunks of the wrapped text to the inbound
  pipe of the view, in order, followed by the newline.
\<close>

theorem send_socket_first:
  "\<exists>rest. send socket stringify that message tr =
       Normal (tr @ ViaSocket (view_id that) message # rest)
     \<and> (rest = []) = socket (view_id that) message
     \<and> (\<not> socket (view_id that) message \<longrightarrow>
          (\<forall>s. stringify message = JsonText s \<longrightarrow>
             (\<exists>cs. rest = map (InStreamWrite (view_id that)) cs
                            @ [InStreamWrite (view_id that) newline]
                  \<and> concat cs = ascii ''window.__electrobun.receiveMessageFromBun('' @ s @ ascii '')''
                  \<and> (\<forall>c \<in> set cs. c \<noteq> [] \<and> length c \<le> CHUNK_SIZE))))"
proof (cases "socket (view_id that) message")
  case True
  have "send socket stringify that message tr = Normal (tr @ [ViaSocket (view_id that) message])"
    using True by (rule send_accepted)
  with True show ?thesis by simp
next
  case False
  show ?thesis
  proof (cases "stringify message")
    case (JsonText s)
    let ?rest = "executeJavascript (view_id that)
          (ascii ''window.__electrobun.receiveMessageFromBun('' @ s @ ascii '')'') []"
    have 1: "send socket stringify that message tr =
        Normal (tr @ ViaSocket (view_id that) message # ?rest)"
      using False JsonText by (rule send_text)
    have 3: "\<exists>cs. ?rest = map (InStreamWrite (view_id that)) cs
                            @ [InStreamWrite (view_id that) newline]
        \<and> concat cs = ascii ''window.__electrobun.receiveMessageFromBun('' @ s @ ascii '')''
        \<and> (\<forall>c \<in> set cs. c \<noteq> [] \<and> length c \<le> CHUNK_SIZE)"
      by (rule executeJavascript_shape)
    have 2: "?rest \<noteq> []" by (rule executeJavascript_nonempty)
    show ?thesis
      by (intro exI[of _ ?rest] conjI impI allI) (use 1 2 3 False JsonText in simp_all)
  next
    case JsonUndefined
    let ?rest = "executeJavascript (view_id that)
          (ascii ''window.__electrobun.receiveMessageFromBun('' @ ascii ''undefined'' @ ascii '')'') []"
    have 1: "send socket stringify that message tr =
        Normal (tr @ ViaSocket (view_id that) message # ?rest)"
      using False JsonUndefined by (rule send_undefined)
    have "\<exists>cs. ?rest = map (InStreamWrite (view_id that)) cs
                            @ [InStreamWrite (view_id that) newline]
        \<and> concat cs = ascii ''window.__electrobun.receiveMessageFromBun('' @ ascii ''undefined'' @ ascii '')''
        \<and> (\<forall>c \<in> set cs. c \<noteq> [] \<and> length c \<le> CHUNK_SIZE)"
      by (rule executeJavascript_shape)
    have 2: "?rest \<noteq> []" by (rule executeJavascript_nonempty)
    show ?thesis
      by (intro exI[of _ ?rest] conjI impI allI) (use 1 2 False JsonUndefined in simp_all)
  next
    case (JsonThrows err)
    have 1: "send socket stringify that message tr =
       Normal (tr @ [ViaSocket (view_id that) message,
         ConsoleError [ascii ''bun: failed to serialize message to webview'', err]])"
      using False JsonThrows by (rule send_throws)
    show ?thesis
      by (intro exI[of _ "[ConsoleError [ascii ''bun: failed to serialize message to webview'', err]]"]
          conjI impI allI) (use 1 False JsonThrows in simp_all)
  qed
qed

theorem send_socket_first_witness:
  "send (\<lambda>i m. True) (\<lambda>m. JsonText (ascii ''{}'')) sample_view () [] = Normal [ViaSocket 1 ()]
   \<and> (\<exists>cs. send (\<lambda>i m. False) (\<lambda>m. JsonText (ascii ''{}'')) sample_view () [] =
            Normal (ViaSocket 1 () # map (InStreamWrite 1) cs @ [InStreamWrite 1 newline])
          \<and> concat cs = ascii ''window.__electrobun.receiveMessageFromBun({})'')"
proof
  show "send (\<lambda>i m. True) (\<lambda>m. JsonText (ascii ''{}'')) sample_view () [] = Normal [ViaSocket 1 ()]"
    using send_socket_first[of "\<lambda>i m. True" "\<lambda>m. JsonText (ascii ''{}'')" sample_view "()" "[]"]
    by (simp add: sample_view_def)
next
  show "\<exists>cs. send (\<lambda>i m. False) (\<lambda>m. JsonText (ascii ''{}'')) sample_view () [] =
            Normal (ViaSocket 1 () # map (InStreamWrite 1) cs @ [InStreamWrite 1 newline])
          \<and> concat cs = ascii ''window.__electrobun.receiveMessageFromBun({})''"
    using send_socket_first[of "\<lambda>i m. False" "\<lambda>m. JsonText (ascii ''{}'')" sample_view "()" "[]"]
    by (auto simp add: sample_view_def ascii_def)
qed

lemma pipe_writes_send_effects_throws:
  "stringify message = JsonThrows err \<Longrightarrow>
     pipe_writes i (send_effects socket stringify that message) = []"
  by (cases "socket (view_id that) message")
     (simp_all add: send_effects_def send_accepted send_throws)

text \<open>
  C5. When \<open>JSON.stringify\<close> throws on the message, \<open>send\<close> returns normally: after the
  socket attempt it only logs the error (if the socket did not take the message) and
  writes nothing to the pipe. In a sequence of sends, the sends before and after it
  complete, and every pipe holds what it would hold had the failing send not been made.
\<close>

theorem send_serialization_failure_dropped:
  assumes "stringify message = JsonThrows err"
  shows "send socket stringify that message tr =
           Normal (tr @ ViaSocket (view_id that) message #
                   (if socket (view_id that) message then []
                    else [ConsoleError [ascii ''bun: failed to serialize message to webview'', err]]))
       \<and> (\<exists>t t'. send_all socket stringify that (before @ message # after) tr = Normal t
               \<and> send_all socket stringify that (before @ after) tr = Normal t'
               \<and> (\<forall>i. pipe_writes i t = pipe_writes i t'))"
proof
  show "send socket stringify that message tr =
           Normal (tr @ ViaSocket (view_id that) message #
                   (if socket (view_id that) message then []
                    else [ConsoleError [ascii ''bun: failed to serialize message to webview'', err]]))"
    using assms by (cases "socket (view_id that) message") (simp_all add: send_accepted send_throws)
next
  let ?E = "send_effects socket stringify that"
  have "\<forall>i. pipe_writes i (tr @ concat (map ?E (before @ message # after))) =
      pipe_writes i (tr @ concat (map ?E (before @ after)))"
    using assms
      pipe_writes_send_effects_throws[where stringify = stringify and message = message
        and err = err and socket = socket and that = that]
    by (simp add: pipe_writes_append)
  then show "\<exists>t t'. send_all socket stringify that (before @ message # after) tr = Normal t
               \<and> send_all socket stringify that (before @ after) tr = Normal t'
               \<and> (\<forall>i. pipe_writes i t = pipe_writes i t')"
    by (simp add: send_all_appends)
qed

theorem send_serialization_failure_dropped_witness:
  "(\<lambda>m. if m = (0::nat) then JsonThrows (ascii ''cyclic'') else JsonText (ascii ''1'')) 0
      = JsonThrows (ascii ''cyclic'')
   \<and> send (\<lambda>i m. False)
        (\<lambda>m. if m = (0::nat) then JsonThrows (ascii ''cyclic'') else JsonText (ascii ''1''))
        sample_view 0 [] =
       Normal [ViaSocket 1 0,
               ConsoleError [ascii ''bun: failed to serialize message to webview'', ascii ''cyclic'']]
   \<and> (\<exists>t t'. send_all (\<lambda>i m. False)
          (\<lambda>m. if m = (0::nat) then JsonThrows (ascii ''cyclic'') else JsonText (ascii ''1''))
          sample_view ([1] @ 0 # [2]) [] = Normal t
        \<and> send_all (\<lambda>i m. False)
          (\<lambda>m. if m = (0::nat) then JsonThrows (ascii ''cyclic'') else JsonText (ascii ''1''))
          sample_view ([1] @ [2]) [] = Normal t'
        \<and> (\<forall>i. pipe_writes i t = pipe_writes i t'))"
proof -
  have h: "(\<lambda>m. if m = (0::nat) then JsonThrows (ascii ''cyclic'') else JsonText (ascii ''1'')) 0
      = JsonThrows (ascii ''cyclic'')" by simp
  show ?thesis
    using h send_serialization_failure_dropped[
        where stringify = "\<lambda>m. if m = (0::nat) then JsonThrows (ascii ''cyclic'')
                                else JsonText (ascii ''1'')"
          and message = 0 and err = "ascii ''cyclic''" and socket = "\<lambda>i m. False"
          and that = sample_view and tr = "[]" and before = "[1]" and after = "[2]"]
    by (simp add: sample_view_def)
qed

section \<open>Properties of message dispatch\<close>

lemma star_not_inherited: "Object_prototype is_object (ascii ''*'') = None"
  by (simp add: Object_prototype_def Object_prototype_names_def ascii_def)

lemma not_inherited: "name \<notin> set Object_prototype_names \<Longrightarrow> Object_prototype is_object name = None"
  by (auto simp: Object_prototype_def Object_prototype_names_def)

lemma read_wildcard:
  "property_read is_object messageHandlers (ascii ''*'') = messageHandlers (ascii ''*'')"
  by (simp add: property_read_def star_not_inherited split: option.splits)

lemma read_registered:
  "messageHandlers name = Some h \<Longrightarrow> property_read is_object messageHandlers name = Some h"
  by (simp add: property_read_def)

lemma read_absent:
  "messageHandlers name = None \<Longrightarrow> name \<notin> set Object_prototype_names \<Longrightarrow>
     property_read is_object messageHandlers name = None"
  by (simp add: property_read_def not_inherited)

text \<open>
  C8, as the code has it. \<open>defineRPC\<close> registers the listener when message handlers
  are given. For an inbound message the listener calls the wildcard handler with the
  name and the payload and then, from the trace the wildcard handler returned, the
  handler registered under the name with the payload: both run when both are
  registered and the wildcard handler returns; an exception of the wildcard handler
  ends the dispatch and reaches the caller. With only one of the two registered, that
  one is called; with none, the listener returns normally without any effect. Where
  no handler is registered under the name, this is for a name that \<open>Object.prototype\<close>
  does not define.
\<close>

theorem messageListener_wildcard_then_named:
  "defineRPC_listener is_object None = None
   \<and> defineRPC_listener is_object (Some messageHandlers)
        = Some (messageListener is_object messageHandlers)
   \<and> (messageHandlers (ascii ''*'') = Some g \<and> messageHandlers messageName = Some h
        \<and> g [JSString messageName, payload] tr = Normal t
      \<longrightarrow> messageListener is_object messageHandlers messageName payload tr = h [payload] t)
   \<and> (messageHandlers (ascii ''*'') = Some g
        \<and> g [JSString messageName, payload] tr = Throw err t
      \<longrightarrow> messageListener is_object messageHandlers messageName payload tr = Throw err t)
   \<and> (messageHandlers (ascii ''*'') = Some g \<and> messageHandlers messageName = None
        \<and> messageName \<notin> set Object_prototype_names
      \<longrightarrow> messageListener is_object messageHandlers messageName payload tr
          = g [JSString messageName, payload] tr)
   \<and> (messageHandlers (ascii ''*'') = None \<and> messageHandlers messageName = Some h
      \<longrightarrow> messageListener is_object messageHandlers messageName payload tr = h [payload] tr)
   \<and> (messageHandlers (ascii ''*'') = None \<and> messageHandlers messageName = None
        \<and> messageName \<notin> set Object_prototype_names
      \<longrightarrow> messageListener is_object messageHandlers messageName payload tr = Normal tr)"
proof (intro conjI impI)
  show "defineRPC_listener is_object None = None"
    by (simp add: defineRPC_listener_def)
  show "defineRPC_listener is_object (Some messageHandlers)
        = Some (messageListener is_object messageHandlers)"
    by (simp add: defineRPC_listener_def)
  show "messageListener is_object messageHandlers messageName payload tr = h [payload] t"
    if "messageHandlers (ascii ''*'') = Some g \<and> messageHandlers messageName = Some h
        \<and> g [JSString messageName, payload] tr = Normal t"
    using that by (simp add: messageListener_def read_wildcard read_registered)
  show "messageListener is_object messageHandlers messageName payload tr = Throw err t"
    if "messageHandlers (ascii ''*'') = Some g
        \<and> g [JSString messageName, payload] tr = Throw err t"
    using that by (simp add: messageListener_def read_wildcard)
  show "messageListener is_object messageHandlers messageName payload tr
          = g [JSString messageName, payload] tr"
    if "messageHandlers (ascii ''*'') = Some g \<and> messageHandlers messageName = None
        \<and> messageName \<notin> set Object_prototype_names"
    using that
    by (simp add: messageListener_def read_wildcard read_absent split: completion.splits)
  show "messageListener is_object messageHandlers messageName payload tr = h [payload] tr"
    if "messageHandlers (ascii ''*'') = None \<and> messageHandlers messageName = Some h"
    using that by (simp add: messageListener_def read_wildcard read_registered)
  show "messageListener is_object messageHandlers messageName payload tr = Normal tr"
    if "messageHandlers (ascii ''*'') = None \<and> messageHandlers messageName = None
        \<and> messageName \<notin> set Object_prototype_names"
    using that by (simp add: messageListener_def read_wildcard read_absent)
qed

theorem messageListener_wildcard_then_named_witness:
  "(Map.empty(ascii ''*'' \<mapsto> (\<lambda>args tr. Normal (tr @ [ConsoleLog (map (\<lambda>a. case a of JSString s \<Rightarrow> s | _ \<Rightarrow> []) args)])), ascii ''log'' \<mapsto> (\<lambda>args tr. Normal (tr @ [ConsoleLog (map (\<lambda>a. case a of JSString s \<Rightarrow> s | _ \<Rightarrow> []) args)])))) (ascii ''*'') \<noteq> None
   \<and> (Map.empty(ascii ''*'' \<mapsto> (\<lambda>args tr. Normal (tr @ [ConsoleLog (map (\<lambda>a. case a of JSString s \<Rightarrow> s | _ \<Rightarrow> []) args)])), ascii ''log'' \<mapsto> (\<lambda>args tr. Normal (tr @ [ConsoleLog (map (\<lambda>a. case a of JSString s \<Rightarrow> s | _ \<Rightarrow> []) args)])))) (ascii ''log'') \<noteq> None
   \<and> ascii ''ping'' \<notin> set Object_prototype_names
   \<and> messageListener (\<lambda>v. False) (Map.empty(ascii ''*'' \<mapsto> (\<lambda>args tr. Normal (tr @ [ConsoleLog (map (\<lambda>a. case a of JSString s \<Rightarrow> s | _ \<Rightarrow> []) args)])), ascii ''log'' \<mapsto> (\<lambda>args tr. Normal (tr @ [ConsoleLog (map (\<lambda>a. case a of JSString s \<Rightarrow> s | _ \<Rightarrow> []) args)]))))
       (ascii ''log'') (JSString (ascii ''hello'') :: unit jsvalue) []
     = Normal [ConsoleLog [ascii ''log'', ascii ''hello''], ConsoleLog [ascii ''hello'']]
   \<and> messageListener (\<lambda>v. False) Map.empty
       (ascii ''ping'') (JSString (ascii ''hello'') :: unit jsvalue) []
     = Normal []"
proof -
  have a: "ascii ''ping'' \<notin> set Object_prototype_names"
    by (simp add: Object_prototype_names_def ascii_def)
  have b: "messageListener (\<lambda>v. False) (Map.empty(ascii ''*'' \<mapsto> (\<lambda>args tr. Normal (tr @ [ConsoleLog (map (\<lambda>a. case a of JSString s \<Rightarrow> s | _ \<Rightarrow> []) args)])), ascii ''log'' \<mapsto> (\<lambda>args tr. Normal (tr @ [ConsoleLog (map (\<lambda>a. case a of JSString s \<Rightarrow> s | _ \<Rightarrow> []) args)]))))
       (ascii ''log'') (JSString (ascii ''hello'') :: unit jsvalue) []
     = Normal [ConsoleLog [ascii ''log'', ascii ''hello''], ConsoleLog [ascii ''hello'']]"
    using messageListener_wildcard_then_named[
      where messageHandlers = "(Map.empty(ascii ''*'' \<mapsto> (\<lambda>args tr. Normal (tr @ [ConsoleLog (map (\<lambda>a. case a of JSString s \<Rightarrow> s | _ \<Rightarrow> []) args)])), ascii ''log'' \<mapsto> (\<lambda>args tr. Normal (tr @ [ConsoleLog (map (\<lambda>a. case a of JSString s \<Rightarrow> s | _ \<Rightarrow> []) args)]))))"
        and g = "\<lambda>args tr. Normal (tr @ [ConsoleLog (map (\<lambda>a. case a of JSString s \<Rightarrow> s | _ \<Rightarrow> []) args)])"
        and h = "\<lambda>args tr. Normal (tr @ [ConsoleLog (map (\<lambda>a. case a of JSString s \<Rightarrow> s | _ \<Rightarrow> []) args)])"
        and messageName = "ascii ''log''"
        and payload = "JSString (ascii ''hello'') :: unit jsvalue"
        and tr = "[]"
        and t = "[ConsoleLog [ascii ''log'', ascii ''hello'']]"
        and is_object = "\<lambda>v. False"]
    by (simp add: ascii_def)
  have c: "messageListener (\<lambda>v. False) Map.empty
       (ascii ''ping'') (JSString (ascii ''hello'') :: unit jsvalue) [] = Normal []"
    using a messageListener_wildcard_then_named[
      where messageHandlers = "Map.empty"
        and messageName = "ascii ''ping''"
        and payload = "JSString (ascii ''hello'') :: unit jsvalue"
        and tr = "[]"
        and is_object = "\<lambda>v. False"]
    by simp
  from a b c show ?thesis by (simp add: ascii_def)
qed

text \<open>
  C8 as stated fails in two ways. With both handlers registered and a wildcard
  handler that throws, the handler registered under the name is not called. With no
  handler registered at all, a message named \<open>hasOwnProperty\<close> does cause an error: the
  listener finds the member of \<open>Object.prototype\<close> and the call throws a TypeError.
\<close>

theorem messageListener_counterexample:
  "messageListener (\<lambda>v. False)
      (Map.empty(ascii ''*'' \<mapsto> (\<lambda>args tr. Throw (ascii ''boom'') (tr @ [ConsoleLog [ascii ''wildcard'']])),
        ascii ''log'' \<mapsto> (\<lambda>args tr. Normal (tr @ [ConsoleLog [ascii ''named'']]))))
      (ascii ''log'') (JSString (ascii ''hello'') :: unit jsvalue) []
     = Throw (ascii ''boom'') [ConsoleLog [ascii ''wildcard'']]
   \<and> messageListener (\<lambda>v. False) Map.empty
       (ascii ''hasOwnProperty'') (JSString (ascii ''hello'') :: unit jsvalue) []
     = Throw (ascii ''TypeError'') []"
  by (simp add: messageListener_def property_read_def Object_prototype_def
      Object_prototype_names_def ascii_def)


section \<open>Properties of receiving\<close>

lemma indexOf_lower: "- 1 \<le> indexOf b c"
  by (induction b) (simp_all add: Let_def)

lemma indexOf_absent: "indexOf b c < 0 \<Longrightarrow> c \<notin> set b"
proof (induction b)
  case Nil
  then show ?case by simp
next
  case (Cons x xs)
  then show ?case using indexOf_lower[of xs c]
    by (auto simp: Let_def split: if_splits)
qed

lemma indexOf_found:
  "0 \<le> indexOf b c \<Longrightarrow> \<exists>l r. b = l @ c # r \<and> c \<notin> set l \<and> nat (indexOf b c) = length l"
proof (induction b)
  case Nil
  then show ?case by simp
next
  case (Cons x xs)
  show ?case
  proof (cases "x = c")
    case True
    then show ?thesis by (intro exI[of _ "[]"] exI[of _ xs]) simp
  next
    case False
    with Cons.prems have nn: "0 \<le> indexOf xs c" and i: "indexOf (x # xs) c = indexOf xs c + 1"
      by (auto simp: Let_def split: if_splits)
    from Cons.IH[OF nn] obtain l r where "xs = l @ c # r" "c \<notin> set l" "nat (indexOf xs c) = length l"
      by blast
    with False i nn show ?thesis
      by (intro exI[of _ "x # l"] exI[of _ r]) (simp add: nat_add_distrib)
  qed
qed

lemma complete_lines_no_newline: "0x0A \<notin> set b \<Longrightarrow> complete_lines b = ([], b)"
  by (induction b) auto

lemma complete_lines_first:
  "0x0A \<notin> set l \<Longrightarrow>
     complete_lines (l @ 0x0A # r) = (l # fst (complete_lines r), snd (complete_lines r))"
  by (induction l) (auto split: prod.splits)

lemma complete_lines_append:
  "complete_lines (a @ b) =
     (fst (complete_lines a) @ fst (complete_lines (snd (complete_lines a) @ b)),
      snd (complete_lines (snd (complete_lines a) @ b)))"
proof (induction a)
  case Nil
  then show ?case by simp
next
  case (Cons c cs)
  then show ?case
    by (cases "complete_lines cs") (auto split: prod.splits list.splits)
qed

lemma drain_lines_stop:
  "indexOf buffer 0x0A < 0 \<Longrightarrow> drain_lines parse handler buffer tr = (buffer, tr)"
  by (subst drain_lines.simps) (simp add: Let_def)

lemma drain_lines_step:
  assumes "0x0A \<notin> set l"
  shows "drain_lines parse handler (l @ 0x0A # r) tr =
           drain_lines parse handler r (deliver_line parse handler l tr)"
proof -
  have nn: "0 \<le> indexOf (l @ 0x0A # r) 0x0A"
  proof (rule ccontr)
    assume "\<not> 0 \<le> indexOf (l @ 0x0A # r) 0x0A"
    then have "indexOf (l @ 0x0A # r) 0x0A < 0" by simp
    from indexOf_absent[OF this] show False by simp
  qed
  from indexOf_found[OF nn] obtain l' r' where
    eq: "l @ 0x0A # r = l' @ 0x0A # r'" and notin: "0x0A \<notin> set l'"
    and len: "nat (indexOf (l @ 0x0A # r) 0x0A) = length l'"
    by blast
  have "l = l'"
  proof (rule ccontr)
    assume ne: "l \<noteq> l'"
    from eq have "length l = length l' \<or> length l < length l' \<or> length l' < length l" by arith
    then show False
    proof (elim disjE)
      assume "length l = length l'"
      with eq ne show False by simp
    next
      assume lt: "length l < length l'"
      from eq have "(l @ 0x0A # r) ! length l = (l' @ 0x0A # r') ! length l" by simp
      with lt have "l' ! length l = 0x0A" by (simp add: nth_append)
      with lt notin show False using nth_mem by metis
    next
      assume lt: "length l' < length l"
      from eq have "(l @ 0x0A # r) ! length l' = (l' @ 0x0A # r') ! length l'" by simp
      with lt have "l ! length l' = 0x0A" by (simp add: nth_append)
      with lt assms show False using nth_mem by metis
    qed
  qed
  with len have idx: "nat (indexOf (l @ 0x0A # r) 0x0A) = length l" by simp
  show ?thesis
    by (subst drain_lines.simps)
       (simp add: nn idx Let_def slice_def deliver_line_def
          split: option.splits completion.splits)
qed

lemma drain_lines_eq:
  "drain_lines parse handler buffer tr =
     (snd (complete_lines buffer),
      fold (deliver_line parse handler) (fst (complete_lines buffer)) tr)"
proof (induction "length buffer" arbitrary: buffer tr rule: less_induct)
  case less
  show ?case
  proof (cases "0 \<le> indexOf buffer 0x0A")
    case False
    then have neg: "indexOf buffer 0x0A < 0" by simp
    from indexOf_absent[OF neg] have "complete_lines buffer = ([], buffer)"
      by (rule complete_lines_no_newline)
    with drain_lines_stop[OF neg] show ?thesis by simp
  next
    case True
    from indexOf_found[OF True] obtain l r where
      b: "buffer = l @ 0x0A # r" and notin: "0x0A \<notin> set l"
      by blast
    have "length r < length buffer" using b by simp
    from less[OF this] have ih: "drain_lines parse handler r (deliver_line parse handler l tr) =
        (snd (complete_lines r),
         fold (deliver_line parse handler) (fst (complete_lines r)) (deliver_line parse handler l tr))" .
    show ?thesis
      unfolding b drain_lines_step[OF notin] ih complete_lines_first[OF notin] by simp
  qed
qed

lemma complete_lines_rest: "0x0A \<notin> set (snd (complete_lines b))"
  by (induction b) (auto split: prod.splits list.splits)

lemma readFromPipe_loop_eq:
  "0x0A \<notin> set buffer \<Longrightarrow>
   readFromPipe_loop decode parse handler reads buffer tr =
     (snd (complete_lines (buffer @ concat (map decode reads))),
      fold (deliver_line parse handler)
        (fst (complete_lines (buffer @ concat (map decode reads)))) tr)"
proof (induction reads arbitrary: buffer tr)
  case Nil
  then show ?case by (simp add: complete_lines_no_newline)
next
  case (Cons v reads)
  have "0x0A \<notin> set (snd (complete_lines (buffer @ decode v)))" by (rule complete_lines_rest)
  note ih = Cons.IH[OF this]
  have a: "complete_lines (buffer @ decode v @ concat (map decode reads)) =
     (fst (complete_lines (buffer @ decode v))
        @ fst (complete_lines (snd (complete_lines (buffer @ decode v)) @ concat (map decode reads))),
      snd (complete_lines (snd (complete_lines (buffer @ decode v)) @ concat (map decode reads))))"
    using complete_lines_append[of "buffer @ decode v" "concat (map decode reads)"] by simp
  show ?case by (simp add: drain_lines_eq ih a)
qed

text \<open>
  C2. Whatever the reads deliver, the loop treats the decoded text line by line: it
  ends with the text after the last newline in its buffer, and its effects are those
  of handling each newline-terminated line in order: the line is trimmed; an empty
  one is ignored; one that does not parse is reported and leaves the trace otherwise
  as it was; any other is parsed and handed to the handler. A line that fails has no
  influence on the lines after it, and the cutting of the stream into reads has none.
\<close>

theorem readFromPipe_lines:
  "readFromPipe decode parse handler reads tr =
     (snd (complete_lines (concat (map decode reads))),
      fold (deliver_line parse handler) (fst (complete_lines (concat (map decode reads)))) tr)
   \<and> (trim raw = [] \<longrightarrow> deliver_line parse handler raw tr = tr)
   \<and> (trim raw \<noteq> [] \<and> parse (trim raw) = None \<longrightarrow>
        deliver_line parse handler raw tr = tr @ [ConsoleError [ascii ''webview: '', trim raw]])
   \<and> (trim raw \<noteq> [] \<and> parse (trim raw) = Some event \<and> handler event tr = Normal t \<longrightarrow>
        deliver_line parse handler raw tr = t)"
proof -
  have "readFromPipe decode parse handler reads tr =
     (snd (complete_lines (concat (map decode reads))),
      fold (deliver_line parse handler) (fst (complete_lines (concat (map decode reads)))) tr)"
    using readFromPipe_loop_eq[of "[]" decode parse handler reads tr]
    by (simp add: readFromPipe_def)
  then show ?thesis by (simp add: deliver_line_def Let_def)
qed

theorem readFromPipe_lines_witness:
  "readFromPipe (map ucast) (\<lambda>l. if l = ascii ''bad'' then None else Some l)
      (\<lambda>event tr. Normal (tr @ [ConsoleLog [event]]))
      [map of_char ''{a}\<newline>bad\<newline>\<newline>  \<newline> [2'', map of_char '']\<newline>tail''] []
    = (ascii ''tail'',
       [ConsoleLog [ascii ''{a}''], ConsoleError [ascii ''webview: '', ascii ''bad''],
        ConsoleLog [ascii ''[2]'']])"
  using readFromPipe_lines[of "map ucast" "\<lambda>l. if l = ascii ''bad'' then None else Some l"
      "\<lambda>event tr. Normal (tr @ [ConsoleLog [event]])"
      "[map of_char ''{a}\<newline>bad\<newline>\<newline>  \<newline> [2'', map of_char '']\<newline>tail'']" "[]"]
  by (simp add: deliver_line_def trim_def is_whitespace_def ascii_def Let_def)


end
